theory Spec2Isabelle
  imports Main
begin

section \<open>The mailslot driver (src/mailslot.c) as a state-passing model\<close>

text \<open>
  The driver keeps a static array of \<open>INSTANCES\<close> mailslots. Every mailslot owns
  \<open>MAILSLOT_STORAGE\<close> pre-allocated messages, and every message owns a buffer of
  \<open>MESSAGE_SIZE\<close> bytes. The model threads the module's global state through each file
  operation. C's \<open>int\<close> fields are \<open>int\<close> (lemma \<open>reachable_bounds\<close> shows that they
  stay in \<open>[0, 256]\<close>, far from any wrap-around), \<open>size_t\<close> values are \<open>nat\<close>, a \<open>char\<close>
  buffer is a \<open>string\<close> whose length is the size of the allocation. An access outside an
  array or a buffer, which C leaves undefined, is a \<open>fault\<close> value of the model.
  Calls to \<open>printk\<close> only log. Those that print a buffer with \<open>%s\<close> read it as a C
  string and are kept as that read (\<open>printk_s\<close>); the others are left out.
\<close>

subsection \<open>Constants and data\<close>

definition INSTANCES :: nat where
  "INSTANCES = 256"

definition MESSAGE_SIZE :: nat where
  "MESSAGE_SIZE = 256"

definition MAILSLOT_STORAGE :: nat where
  "MAILSLOT_STORAGE = 256"

record message =
  content :: string
  len :: nat

record mailslot =
  opened :: int
  messages :: "message list"
  messages_count :: int

record module_state =
  instances :: "mailslot list"
  instances_count :: int

datatype fault = ArrayIndex | WriteOverrun | ReadOverrun

subsection \<open>The C library calls on buffers\<close>

text \<open>
  \<open>memcpy dst src n\<close> copies the first \<open>n\<close> bytes of \<open>src\<close> over the first \<open>n\<close>
  bytes of \<open>dst\<close>. Reading more than \<open>src\<close> holds or writing more than \<open>dst\<close> was
  allocated for is the fault.
\<close>

definition memcpy :: "string \<Rightarrow> string \<Rightarrow> nat \<Rightarrow> fault + string" where
  "memcpy dst src n =
     (if length src < n then Inl ReadOverrun
      else if length dst < n then Inl WriteOverrun
      else Inr (take n src @ drop n dst))"

text \<open>
  \<open>strcpy dst src\<close> copies the characters of the C string \<open>src\<close> and its terminating
  NUL byte; \<open>src\<close> is given without the terminator.
\<close>

definition strcpy :: "string \<Rightarrow> string \<Rightarrow> fault + string" where
  "strcpy dst src =
     (if length dst < length src + 1 then Inl WriteOverrun
      else Inr (src @ [CHR 0x00] @ drop (length src + 1) dst))"

text \<open>\<open>strlen buf\<close> scans \<open>buf\<close> for the first NUL byte.\<close>

definition strlen :: "string \<Rightarrow> fault + nat" where
  "strlen buf =
     (if CHR 0x00 \<in> set buf then Inr (length (takeWhile (\<lambda>c. c \<noteq> CHR 0x00) buf))
      else Inl ReadOverrun)"

text \<open>
  \<open>printk_s buf\<close> is \<open>printk\<close> with a \<open>%s\<close> conversion applied to \<open>buf\<close>: it reads
  \<open>buf\<close> up to its first NUL byte and changes nothing. A buffer that holds no NUL byte
  is read past its end.
\<close>

definition printk_s :: "string \<Rightarrow> fault + unit" where
  "printk_s buf = (case strlen buf of Inl f \<Rightarrow> Inl f | Inr k \<Rightarrow> Inr ())"

text \<open>\<open>strcat dst src\<close> writes \<open>src\<close> and a NUL byte where the C string in \<open>dst\<close> ends.\<close>

definition strcat :: "string \<Rightarrow> string \<Rightarrow> fault + string" where
  "strcat dst src =
     (case strlen dst of
        Inl f \<Rightarrow> Inl f
      | Inr k \<Rightarrow>
          if length dst < k + length src + 1 then Inl WriteOverrun
          else Inr (take k dst @ src @ [CHR 0x00] @ drop (k + length src + 1) dst))"

subsection \<open>Module facilities\<close>

text \<open>The text of \<open>char err[]\<close> in \<open>getMessage\<close>; it ends with a line feed.\<close>

definition err :: string where
  "err = ''No message to read'' @ [CHR 0x0A]"

text \<open>
  \<open>getMessage buff inst\<close> returns the function's result, the caller's buffer after the
  copy, the value stored through \<open>ret_len\<close>, and the new state. On a non-empty mailslot
  it prints the slot's buffer with \<open>%s\<close> before it copies the message.
\<close>

definition getMessage :: "string \<Rightarrow> nat \<Rightarrow> module_state \<Rightarrow> fault + (int \<times> string \<times> nat \<times> module_state)" where
  "getMessage buff inst s =
     (if \<not> inst < length (instances s) then Inl ArrayIndex
      else
        let m = instances s ! inst; count = messages_count m in
        if count = 0 then
          (case strcpy buff err of
             Inl f \<Rightarrow> Inl f
           | Inr buff' \<Rightarrow> Inr (0, buff', length err, s))
        else if \<not> (0 \<le> count - 1 \<and> nat (count - 1) < length (messages m)) then Inl ArrayIndex
        else
          let msg = messages m ! nat (count - 1) in
          (case printk_s (content msg) of
             Inl f \<Rightarrow> Inl f
           | Inr u \<Rightarrow>
               (case memcpy buff (content msg) (len msg) of
                  Inl f \<Rightarrow> Inl f
                | Inr buff' \<Rightarrow>
                    Inr (0, buff', len msg,
                         s\<lparr>instances := (instances s)[inst :=
                             m\<lparr>messages_count := count - 1\<rparr>]\<rparr>))))"

text \<open>
  \<open>pushMessage buff n inst\<close>, with \<open>n\<close> the source's parameter \<open>len\<close>. After the copy
  it prints the slot's buffer with \<open>%s\<close>.
\<close>

definition pushMessage :: "string \<Rightarrow> nat \<Rightarrow> nat \<Rightarrow> module_state \<Rightarrow> fault + (int \<times> module_state)" where
  "pushMessage buff n inst s =
     (if \<not> inst < length (instances s) then Inl ArrayIndex
      else
        let m = instances s ! inst; count = messages_count m in
        if count = int MAILSLOT_STORAGE then Inr (- 1, s)
        else if \<not> (0 \<le> count \<and> nat count < length (messages m)) then Inl ArrayIndex
        else
          let msg = messages m ! nat count in
          (case memcpy (content msg) buff n of
             Inl f \<Rightarrow> Inl f
           | Inr c \<Rightarrow>
               (case printk_s c of
                  Inl f \<Rightarrow> Inl f
                | Inr u \<Rightarrow>
                    Inr (0, s\<lparr>instances := (instances s)[inst :=
                           m\<lparr>messages := (messages m)[nat count := msg\<lparr>content := c, len := n\<rparr>],
                             messages_count := count + 1\<rparr>]\<rparr>))))"

definition clearMailslot :: "nat \<Rightarrow> module_state \<Rightarrow> int \<times> module_state" where
  "clearMailslot inst s = (0, s)"

subsection \<open>File operations\<close>

text \<open>\<open>minor\<close> is the device's minor number, which \<open>iminor\<close> reads from the file.\<close>

definition mailslot_open :: "nat \<Rightarrow> module_state \<Rightarrow> fault + (int \<times> module_state)" where
  "mailslot_open minor s =
     (if instances_count s = int INSTANCES then Inr (- 1, s)
      else if \<not> minor < length (instances s) then Inl ArrayIndex
      else
        let m = instances s ! minor in
        if opened m = 0 then
          Inr (0, s\<lparr>instances := (instances s)[minor := m\<lparr>opened := 1\<rparr>],
                    instances_count := instances_count s + 1\<rparr>)
        else Inr (- 1, s))"

definition mailslot_release :: "nat \<Rightarrow> module_state \<Rightarrow> fault + (int \<times> module_state)" where
  "mailslot_release minor s =
     (if instances_count s = 0 then Inr (- 1, s)
      else if \<not> minor < length (instances s) then Inl ArrayIndex
      else
        let m = instances s ! minor in
        if opened m \<noteq> 0 then
          Inr (0, s\<lparr>instances := (instances s)[minor := m\<lparr>opened := 0\<rparr>],
                    instances_count := instances_count s - 1\<rparr>)
        else Inr (- 1, s))"

text \<open>
  The model is sequential. \<open>lock\<close> is what \<open>mutex_lock_interruptible\<close> returns: zero
  when the caller got the mailslot's mutex, non-zero when its wait was interrupted.
  \<open>mailslot_read\<close> returns its result, the caller's buffer, the file offset \<open>*off\<close> and
  the new state. The parameter \<open>n\<close> is the source's \<open>len\<close>, which the function never reads.
\<close>

definition mailslot_read :: "int \<Rightarrow> nat \<Rightarrow> string \<Rightarrow> nat \<Rightarrow> int \<Rightarrow> module_state \<Rightarrow> fault + (int \<times> string \<times> int \<times> module_state)" where
  "mailslot_read lock minor buff n off s =
     (if off > 0 then Inr (0, buff, off, s)
      else if \<not> minor < length (instances s) then Inl ArrayIndex
      else if lock \<noteq> 0 then Inr (- 1, buff, off, s)
      else
        (case getMessage buff minor s of
           Inl f \<Rightarrow> Inl f
         | Inr (r, buff1, ret_len, s1) \<Rightarrow>
             (case printk_s buff1 of
                Inl f \<Rightarrow> Inl f
              | Inr u \<Rightarrow>
                  (case strcat buff1 [CHR 0x0A] of
                     Inl f \<Rightarrow> Inl f
                   | Inr buff2 \<Rightarrow>
                       if off = 0
                       then Inr (off + (int ret_len + 1), buff2, off + (int ret_len + 1), s1)
                       else Inr (0, buff2, off, s1)))))"

text \<open>
  \<open>mailslot_write\<close> returns \<open>len\<close> converted to \<open>ssize_t\<close>; the kernel never passes a
  length above \<open>MAX_RW_COUNT\<close>, so the conversion keeps the value.
\<close>

definition mailslot_write :: "int \<Rightarrow> nat \<Rightarrow> string \<Rightarrow> nat \<Rightarrow> int \<Rightarrow> module_state \<Rightarrow> fault + (int \<times> module_state)" where
  "mailslot_write lock minor buff n off s =
     (if \<not> minor < length (instances s) then Inl ArrayIndex
      else if lock \<noteq> 0 then Inr (- 1, s)
      else
        (case pushMessage buff n minor s of
           Inl f \<Rightarrow> Inl f
         | Inr (r, s1) \<Rightarrow> Inr (int n, s1)))"

subsection \<open>Module initialisation\<close>

text \<open>
  \<open>init_module\<close> on the path where every allocation and the registration of the device
  succeed. \<open>kmalloc\<close> returns memory that is not cleared: \<open>junk i j\<close> gives the bytes
  found in the buffer of slot \<open>j\<close> of mailslot \<open>i\<close>, and \<open>junk_len i j\<close> the value found
  in its \<open>len\<close> field. The mailslot itself is cleared by \<open>memset\<close>.
\<close>

definition init_module :: "(nat \<Rightarrow> nat \<Rightarrow> nat \<Rightarrow> char) \<Rightarrow> (nat \<Rightarrow> nat \<Rightarrow> nat) \<Rightarrow> int \<times> module_state" where
  "init_module junk junk_len =
     (0, \<lparr>instances =
            map (\<lambda>i. \<lparr>opened = 0,
                      messages = map (\<lambda>j. \<lparr>content = map (junk i j) [0..<MESSAGE_SIZE],
                                            len = junk_len i j\<rparr>) [0..<MAILSLOT_STORAGE],
                      messages_count = 0\<rparr>) [0..<INSTANCES],
          instances_count = 0\<rparr>)"

subsection \<open>Sequences of calls\<close>

text \<open>
  A request is one call of a file operation with its arguments; \<open>step\<close> performs it and
  gives the value the call returns and the new state. \<open>run\<close> performs a list of
  requests in order, collects the returned values, and stops at a fault.
\<close>

datatype request =
    Open nat
  | Release nat
  | Read int nat string nat int
  | Write int nat string nat int

fun step :: "request \<Rightarrow> module_state \<Rightarrow> fault + (int \<times> module_state)" where
  "step (Open minor) s = mailslot_open minor s"
| "step (Release minor) s = mailslot_release minor s"
| "step (Read lock minor buff n off) s =
     (case mailslot_read lock minor buff n off s of
        Inl f \<Rightarrow> Inl f | Inr (r, buff', off', s') \<Rightarrow> Inr (r, s'))"
| "step (Write lock minor buff n off) s = mailslot_write lock minor buff n off s"

fun run :: "request list \<Rightarrow> module_state \<Rightarrow> fault + (int list \<times> module_state)" where
  "run [] s = Inr ([], s)"
| "run (r # rs) s =
     (case step r s of
        Inl f \<Rightarrow> Inl f
      | Inr (ret, s') \<Rightarrow>
          (case run rs s' of Inl f \<Rightarrow> Inl f | Inr (rets, s'') \<Rightarrow> Inr (ret # rets, s'')))"

subsection \<open>Observations and invariants of the state\<close>

text \<open>What a mailslot stores: its slots and the number of live messages.\<close>

definition stored :: "module_state \<Rightarrow> (message list \<times> int) list" where
  "stored s = map (\<lambda>m. (messages m, messages_count m)) (instances s)"

text \<open>The number of mailslots whose \<open>opened\<close> flag is set.\<close>

definition opened_total :: "module_state \<Rightarrow> int" where
  "opened_total s = int (length (filter (\<lambda>m. opened m \<noteq> 0) (instances s)))"

text \<open>
  The shape \<open>init_module\<close> sets up and every call keeps: all arrays and buffers have their
  declared sizes, the message counter stays inside its array, and every live message
  fits its buffer, which holds a NUL byte.
\<close>

definition wf_mailslot :: "mailslot \<Rightarrow> bool" where
  "wf_mailslot m \<longleftrightarrow>
     length (messages m) = MAILSLOT_STORAGE \<and>
     0 \<le> messages_count m \<and> messages_count m \<le> int MAILSLOT_STORAGE \<and>
     list_all (\<lambda>msg. length (content msg) = MESSAGE_SIZE) (messages m) \<and>
     list_all (\<lambda>msg. len msg \<le> MESSAGE_SIZE \<and> CHR 0x00 \<in> set (content msg))
       (take (nat (messages_count m)) (messages m))"

definition wf :: "module_state \<Rightarrow> bool" where
  "wf s \<longleftrightarrow> length (instances s) = INSTANCES \<and> list_all wf_mailslot (instances s)"

text \<open>
  The live messages of mailslot \<open>inst\<close>, oldest first: the first \<open>len\<close> bytes of each
  of the first \<open>messages_count\<close> slots.
\<close>

definition live :: "module_state \<Rightarrow> nat \<Rightarrow> string list" where
  "live s inst =
     (let m = instances s ! inst in
      map (\<lambda>msg. take (len msg) (content msg)) (take (nat (messages_count m)) (messages m)))"

subsection \<open>Concrete states\<close>

text \<open>The state after loading the module when the allocated memory happens to be zero.\<close>

definition fresh_state :: module_state where
  "fresh_state = snd (init_module (\<lambda>i j k. CHR 0x00) (\<lambda>i j. 0))"

text \<open>\<open>fresh_state\<close> after 256 one-byte messages \<open>x\<close> were written to mailslot 0.\<close>

definition full_state :: module_state where
  "full_state =
     fresh_state\<lparr>instances := (instances fresh_state)[0 :=
       \<lparr>opened = 0,
        messages = replicate 256 \<lparr>content = CHR ''x'' # replicate 255 (CHR 0x00), len = 1\<rparr>,
        messages_count = 256\<rparr>]\<rparr>"

text \<open>\<open>fresh_state\<close> after \<open>k\<close> one-byte messages \<open>x\<close> were written to mailslot 0.\<close>

definition filled :: "nat \<Rightarrow> module_state" where
  "filled k =
     fresh_state\<lparr>instances := (instances fresh_state)[0 :=
       \<lparr>opened = 0,
        messages = replicate k \<lparr>content = CHR ''x'' # replicate 255 (CHR 0x00), len = 1\<rparr> @
                   replicate (256 - k) \<lparr>content = replicate 256 (CHR 0x00), len = 0\<rparr>,
        messages_count = int k\<rparr>]\<rparr>"

text \<open>\<open>full_state\<close> after mailslot 0 was opened.\<close>

definition open_full_state :: module_state where
  "open_full_state =
     full_state\<lparr>instances := (instances full_state)[0 := (instances full_state ! 0)\<lparr>opened := 1\<rparr>],
                instances_count := 1\<rparr>"

section \<open>Properties\<close>

subsection \<open>The initial state\<close>

lemma length_instances_init: "length (instances (snd (init_module junk jl))) = INSTANCES"
  by (simp add: init_module_def)

lemma nth_instances_init:
  "i < INSTANCES \<Longrightarrow> instances (snd (init_module junk jl)) ! i =
     \<lparr>opened = 0,
      messages = map (\<lambda>j. \<lparr>content = map (junk i j) [0..<MESSAGE_SIZE], len = jl i j\<rparr>)
                   [0..<MAILSLOT_STORAGE],
      messages_count = 0\<rparr>"
  by (simp add: init_module_def)

lemma length_err: "length err = 19"
  by (simp add: err_def)

lemma printk_s_nul: "CHR 0x00 \<in> set buf \<Longrightarrow> printk_s buf = Inr ()"
  by (simp add: printk_s_def strlen_def)

lemma printk_s_no_nul: "CHR 0x00 \<notin> set buf \<Longrightarrow> printk_s buf = Inl ReadOverrun"
  by (simp add: printk_s_def strlen_def)

lemma fresh_state_eq:
  "fresh_state =
     \<lparr>instances = replicate 256
        \<lparr>opened = 0,
         messages = replicate 256 \<lparr>content = replicate 256 (CHR 0x00), len = 0\<rparr>,
         messages_count = 0\<rparr>,
      instances_count = 0\<rparr>"
  unfolding fresh_state_def init_module_def map_replicate_const
  by (simp add: INSTANCES_def MAILSLOT_STORAGE_def MESSAGE_SIZE_def)

lemma open_full: "mailslot_open 0 full_state = Inr (0, open_full_state)"
  by (simp add: mailslot_open_def open_full_state_def full_state_def fresh_state_eq INSTANCES_def)

lemma release_open_full: "mailslot_release 0 open_full_state = Inr (0, full_state)"
  by (simp add: mailslot_release_def open_full_state_def full_state_def fresh_state_eq)

subsection \<open>Reading at a positive offset\<close>

text \<open>
  C10. A call of \<open>mailslot_read\<close> whose file offset is greater than zero returns 0 at
  once: the result is the same whatever the mutex would have answered, the caller's
  buffer and the offset are as they were, and the module state (every \<open>opened\<close> flag,
  every message counter, every slot) is unchanged, so no message is consumed.
\<close>

theorem mailslot_read_offset_positive:
  "0 < off \<Longrightarrow> mailslot_read lock minor buff n off s = Inr (0, buff, off, s)"
  by (simp add: mailslot_read_def)

theorem mailslot_read_offset_positive_witness:
  "(0::int) < 20 \<and> mailslot_read 1 3 ''abc'' 3 20 fresh_state = Inr (0, ''abc'', 20, fresh_state)"
  using mailslot_read_offset_positive [of 20 1 3 "''abc''" 3 fresh_state] by simp

subsection \<open>Pushing to a full mailslot\<close>

text \<open>
  C4. \<open>pushMessage\<close> on a mailslot whose counter equals \<open>MAILSLOT_STORAGE\<close> returns -1 and
  leaves the whole state as it was: the counter, and the content and length of every
  slot, are unchanged.
\<close>

theorem pushMessage_full:
  "inst < length (instances s) \<Longrightarrow> messages_count (instances s ! inst) = int MAILSLOT_STORAGE \<Longrightarrow>
   pushMessage buff n inst s = Inr (- 1, s)"
  by (simp add: pushMessage_def)

theorem pushMessage_full_witness:
  "0 < length (instances full_state) \<and>
   messages_count (instances full_state ! 0) = int MAILSLOT_STORAGE \<and>
   pushMessage ''hello'' 5 0 full_state = Inr (- 1, full_state)"
  using pushMessage_full [of 0 full_state "''hello''" 5]
  by (simp add: full_state_def fresh_state_def length_instances_init INSTANCES_def
      MAILSLOT_STORAGE_def)

subsection \<open>Popping from an empty mailslot\<close>

text \<open>
  C5. \<open>getMessage\<close> on a mailslot with no message returns 0 (success), copies the
  placeholder text \<open>No message to read\<close>, with its line feed and terminating NUL, into the
  caller's buffer, reports its length 19, and leaves the state unchanged, so the message
  counter is still 0. The caller's buffer has room for the 20 bytes.
\<close>

theorem getMessage_empty:
  "inst < length (instances s) \<Longrightarrow> messages_count (instances s ! inst) = 0 \<Longrightarrow>
   20 \<le> length buff \<Longrightarrow>
   getMessage buff inst s =
     Inr (0, ''No message to read'' @ [CHR 0x0A, CHR 0x00] @ drop 20 buff, 19, s)"
proof -
  assume a: "inst < length (instances s)" "messages_count (instances s ! inst) = 0"
    "20 \<le> length buff"
  have "getMessage buff inst s = Inr (0, err @ [CHR 0x00] @ drop 20 buff, 19, s)"
    using a unfolding getMessage_def strcpy_def length_err by simp
  then show ?thesis by (simp add: err_def)
qed

theorem getMessage_empty_witness:
  "getMessage (replicate 32 (CHR ''.'')) 7 fresh_state =
     Inr (0, ''No message to read'' @ [CHR 0x0A, CHR 0x00] @ replicate 12 (CHR ''.''), 19,
          fresh_state)"
  using getMessage_empty [of 7 fresh_state "replicate 32 (CHR ''.'')"]
  by (simp add: fresh_state_def length_instances_init nth_instances_init INSTANCES_def)

subsection \<open>Opening a mailslot\<close>

text \<open>
  C2. For every index \<open>i\<close> of the array, \<open>mailslot_open\<close> on a mailslot whose
  \<open>opened\<close> flag is set fails (the driver returns -1 for every failure of open) and
  changes nothing; on a closed mailslot, when the capacity check passes, it sets the
  flag, adds one to \<open>instances_count\<close> and returns 0. Whatever a first open of \<open>i\<close>
  returned, a second open of \<open>i\<close> right after it fails.
\<close>

theorem mailslot_open_result:
  "i < length (instances s) \<Longrightarrow>
     (opened (instances s ! i) \<noteq> 0 \<longrightarrow> mailslot_open i s = Inr (- 1, s)) \<and>
     (opened (instances s ! i) = 0 \<and> instances_count s \<noteq> int INSTANCES \<longrightarrow>
        mailslot_open i s =
          Inr (0, s\<lparr>instances := (instances s)[i := (instances s ! i)\<lparr>opened := 1\<rparr>],
                    instances_count := instances_count s + 1\<rparr>)) \<and>
     (\<forall>r s'. mailslot_open i s = Inr (r, s') \<longrightarrow> mailslot_open i s' = Inr (- 1, s'))"
  by (auto simp: mailslot_open_def Let_def split: if_splits)

theorem mailslot_open_result_witness:
  "mailslot_open 0 full_state = Inr (0, open_full_state) \<and>
   mailslot_open 0 open_full_state = Inr (- 1, open_full_state)"
proof -
  have l: "0 < length (instances full_state)"
    by (simp add: full_state_def fresh_state_eq)
  have o: "opened (instances full_state ! 0) = 0"
    by (simp add: full_state_def fresh_state_eq)
  have c: "instances_count full_state \<noteq> int INSTANCES"
    by (simp add: full_state_def fresh_state_eq INSTANCES_def)
  have e: "full_state\<lparr>instances := (instances full_state)[0 :=
        (instances full_state ! 0)\<lparr>opened := 1\<rparr>],
      instances_count := instances_count full_state + 1\<rparr> = open_full_state"
    by (simp add: open_full_state_def full_state_def fresh_state_eq)
  from mailslot_open_result [OF l] o c e show ?thesis by simp
qed

subsection \<open>What read and write leave alone\<close>

lemma getMessage_flags:
  "getMessage buff j s = Inr (r, b, l, s') \<Longrightarrow>
     map opened (instances s') = map opened (instances s) \<and>
     instances_count s' = instances_count s"
  by (auto simp: getMessage_def Let_def map_update list_eq_iff_nth_eq nth_list_update
      split: if_splits sum.splits)

lemma pushMessage_flags:
  "pushMessage buff n j s = Inr (r, s') \<Longrightarrow>
     map opened (instances s') = map opened (instances s) \<and>
     instances_count s' = instances_count s"
  by (auto simp: pushMessage_def Let_def map_update list_eq_iff_nth_eq nth_list_update
      split: if_splits sum.splits)

lemma mailslot_read_flags:
  "mailslot_read lock j buff n off s = Inr (r, b, off', s') \<Longrightarrow>
     map opened (instances s') = map opened (instances s) \<and>
     instances_count s' = instances_count s"
  by (auto simp: mailslot_read_def split: if_splits sum.splits dest: getMessage_flags)

lemma mailslot_write_flags:
  "mailslot_write lock j buff n off s = Inr (r, s') \<Longrightarrow>
     map opened (instances s') = map opened (instances s) \<and>
     instances_count s' = instances_count s"
  by (auto simp: mailslot_write_def split: if_splits sum.splits dest: pushMessage_flags)

lemma flags_nth:
  "map opened (instances s') = map opened (instances s) \<Longrightarrow>
     length (instances s') = length (instances s) \<and>
     (\<forall>i < length (instances s). opened (instances s' ! i) = opened (instances s ! i))"
  by (auto simp: list_eq_iff_nth_eq)

subsection \<open>Releasing a mailslot\<close>

text \<open>
  A mailslot that is closed stays closed through every call other than a successful
  open of that mailslot.
\<close>

lemma step_keeps_closed:
  assumes "step r s = Inr (ret, s')" "i < length (instances s)" "opened (instances s ! i) = 0"
    "r = Open i \<longrightarrow> ret \<noteq> 0"
  shows "length (instances s') = length (instances s) \<and> opened (instances s' ! i) = 0"
proof (cases r)
  case (Open j)
  with assms show ?thesis
    by (auto simp: mailslot_open_def Let_def nth_list_update split: if_splits)
next
  case (Release j)
  with assms show ?thesis
    by (auto simp: mailslot_release_def Let_def nth_list_update split: if_splits)
next
  case (Read lock j buff n off)
  with assms(1) obtain b off' where "mailslot_read lock j buff n off s = Inr (ret, b, off', s')"
    by (auto split: sum.splits)
  from flags_nth [OF conjunct1 [OF mailslot_read_flags [OF this]]] assms(2,3)
  show ?thesis by simp
next
  case (Write lock j buff n off)
  with assms(1) have "mailslot_write lock j buff n off s = Inr (ret, s')" by simp
  from flags_nth [OF conjunct1 [OF mailslot_write_flags [OF this]]] assms(2,3)
  show ?thesis by simp
qed

lemma run_keeps_closed:
  "run rs s = Inr (rets, s') \<Longrightarrow> i < length (instances s) \<Longrightarrow>
   opened (instances s ! i) = 0 \<Longrightarrow> (Open i, 0) \<notin> set (zip rs rets) \<Longrightarrow>
   length (instances s') = length (instances s) \<and> opened (instances s' ! i) = 0"
proof (induction rs arbitrary: s rets)
  case Nil
  then show ?case by simp
next
  case (Cons r rs)
  from Cons.prems(1) obtain ret s1 rets1 where
    st: "step r s = Inr (ret, s1)" and rn: "run rs s1 = Inr (rets1, s')" and
    rets: "rets = ret # rets1"
    by (auto split: sum.splits)
  from Cons.prems(4) rets have ok: "r = Open i \<longrightarrow> ret \<noteq> 0" and
    rest: "(Open i, 0) \<notin> set (zip rs rets1)"
    by auto
  from step_keeps_closed [OF st Cons.prems(2,3) ok]
  have l: "length (instances s1) = length (instances s)" and o: "opened (instances s1 ! i) = 0"
    by simp_all
  from Cons.prems(2) l have "i < length (instances s1)" by simp
  from Cons.IH [OF rn this o rest] l show ?case by simp
qed

text \<open>
  C3. For every index \<open>i\<close> of the array, \<open>mailslot_release\<close> on a mailslot whose
  \<open>opened\<close> flag is clear, or when \<open>instances_count\<close> is 0, fails (returns -1) and
  changes nothing; otherwise it clears the flag, subtracts one from \<open>instances_count\<close>
  and returns 0. In particular, after any sequence of calls on a freshly loaded module
  in which no open of \<open>i\<close> returned 0, a release of \<open>i\<close> fails.
\<close>

theorem mailslot_release_result:
  "(i < length (instances s) \<longrightarrow>
      (opened (instances s ! i) = 0 \<or> instances_count s = 0 \<longrightarrow>
         mailslot_release i s = Inr (- 1, s)) \<and>
      (opened (instances s ! i) \<noteq> 0 \<and> instances_count s \<noteq> 0 \<longrightarrow>
         mailslot_release i s =
           Inr (0, s\<lparr>instances := (instances s)[i := (instances s ! i)\<lparr>opened := 0\<rparr>],
                     instances_count := instances_count s - 1\<rparr>))) \<and>
   (i < INSTANCES \<and> run rs (snd (init_module junk jl)) = Inr (rets, t) \<and>
      (Open i, 0) \<notin> set (zip rs rets) \<longrightarrow>
      mailslot_release i t = Inr (- 1, t))"
proof (intro conjI impI)
  assume "i < INSTANCES \<and> run rs (snd (init_module junk jl)) = Inr (rets, t) \<and>
      (Open i, 0) \<notin> set (zip rs rets)"
  then have i: "i < length (instances (snd (init_module junk jl)))"
    and o: "opened (instances (snd (init_module junk jl)) ! i) = 0"
    and r: "run rs (snd (init_module junk jl)) = Inr (rets, t)"
    and z: "(Open i, 0) \<notin> set (zip rs rets)"
    by (simp_all add: length_instances_init nth_instances_init)
  from run_keeps_closed [OF r i o z] i
  show "mailslot_release i t = Inr (- 1, t)"
    by (simp add: mailslot_release_def)
qed (auto simp: mailslot_release_def Let_def)

theorem mailslot_release_result_witness:
  "mailslot_release 0 full_state = Inr (- 1, full_state) \<and>
   mailslot_release 0 open_full_state = Inr (0, full_state) \<and>
   (\<exists>t. run [Open 2, Write 0 3 ''hi'' 2 0, Open 2, Release 2] fresh_state =
           Inr ([0, 2, - 1, 0], t) \<and>
        mailslot_release 5 t = Inr (- 1, t))"
proof -
  have l: "0 < length (instances full_state)" "0 < length (instances open_full_state)"
    by (simp_all add: open_full_state_def full_state_def fresh_state_eq)
  have o: "opened (instances full_state ! 0) = 0" "opened (instances open_full_state ! 0) \<noteq> 0"
    "instances_count open_full_state \<noteq> 0"
    by (simp_all add: open_full_state_def full_state_def fresh_state_eq)
  have e: "open_full_state\<lparr>instances := (instances open_full_state)[0 :=
        (instances open_full_state ! 0)\<lparr>opened := 0\<rparr>],
      instances_count := instances_count open_full_state - 1\<rparr> = full_state"
    by (simp add: open_full_state_def full_state_def fresh_state_eq)
  have a: "mailslot_release 0 full_state = Inr (- 1, full_state)"
    using mailslot_release_result [where i = 0 and s = full_state] l o by simp
  have b: "mailslot_release 0 open_full_state = Inr (0, full_state)"
    using mailslot_release_result [where i = 0 and s = open_full_state] l o e by simp
  have "\<exists>t. run [Open 2, Write 0 3 ''hi'' 2 0, Open 2, Release 2] fresh_state =
           Inr ([0, 2, - 1, 0], t)"
    by (simp add: mailslot_open_def mailslot_write_def mailslot_release_def pushMessage_def
        memcpy_def printk_s_def strlen_def fresh_state_eq INSTANCES_def MAILSLOT_STORAGE_def
        Let_def)
  then obtain t where t: "run [Open 2, Write 0 3 ''hi'' 2 0, Open 2, Release 2] fresh_state =
           Inr ([0, 2, - 1, 0], t)" ..
  have "mailslot_release 5 t = Inr (- 1, t)"
    using mailslot_release_result [where i = 5 and junk = "\<lambda>i j k. CHR 0x00"
        and jl = "\<lambda>i j. 0" and rs = "[Open 2, Write 0 3 ''hi'' 2 0, Open 2, Release 2]"
        and rets = "[0, 2, - 1, 0]" and t = t] t
    by (simp add: fresh_state_def INSTANCES_def)
  with a b t show ?thesis by blast
qed

subsection \<open>Open and release leave the messages alone\<close>

lemma stored_update_opened:
  "i < length (instances s) \<Longrightarrow>
   stored (s\<lparr>instances := (instances s)[i := (instances s ! i)\<lparr>opened := v\<rparr>],
             instances_count := c\<rparr>) = stored s"
  by (simp add: stored_def list_eq_iff_nth_eq nth_list_update)

lemma mailslot_open_stored: "mailslot_open i s = Inr (r, s') \<Longrightarrow> stored s' = stored s"
  by (auto simp: mailslot_open_def Let_def stored_update_opened split: if_splits)

lemma mailslot_release_stored: "mailslot_release i s = Inr (r, s') \<Longrightarrow> stored s' = stored s"
  by (auto simp: mailslot_release_def Let_def stored_update_opened split: if_splits)

lemma stored_nth:
  "stored s' = stored s \<Longrightarrow> length (instances s') = length (instances s) \<and>
     (\<forall>j < length (instances s). messages (instances s' ! j) = messages (instances s ! j) \<and>
          messages_count (instances s' ! j) = messages_count (instances s ! j))"
  by (auto simp: stored_def list_eq_iff_nth_eq)

lemma stored_update_count:
  "stored (s\<lparr>instances := (instances s)[j := (instances s ! j)\<lparr>messages_count := c\<rparr>]\<rparr>) =
     (stored s)[j := (messages (instances s ! j), c)]"
  by (simp add: stored_def map_update)

text \<open>A pop sees only what is stored: two states that store the same give the same pop.\<close>

lemma getMessage_stored:
  assumes "stored s' = stored s"
  shows "map_sum id (\<lambda>(r, b, l, t). (r, b, l, stored t)) (getMessage buff j s') =
         map_sum id (\<lambda>(r, b, l, t). (r, b, l, stored t)) (getMessage buff j s)"
proof (cases "j < length (instances s)")
  case False
  with stored_nth [OF assms] show ?thesis by (simp add: getMessage_def)
next
  case True
  with stored_nth [OF assms] have
    l: "j < length (instances s')" and
    m: "messages (instances s' ! j) = messages (instances s ! j)" and
    c: "messages_count (instances s' ! j) = messages_count (instances s ! j)"
    by auto
  show ?thesis
    using True l
    by (simp add: getMessage_def Let_def m c stored_update_count assms split: sum.splits)
qed

text \<open>
  C9. A call of \<open>mailslot_open\<close> or of \<open>mailslot_release\<close>, whether it returns 0 or -1,
  leaves what every mailslot stores unchanged: the slots (content and length of each)
  and the message counter. After a release followed by a reopen the stored messages are
  the same, and a pop returns the same message as it would have before the release.
\<close>

theorem open_release_keep_messages:
  "(mailslot_open i s = Inr (r, s') \<longrightarrow> stored s' = stored s) \<and>
   (mailslot_release i s = Inr (r, s') \<longrightarrow> stored s' = stored s) \<and>
   (mailslot_release i s = Inr (r1, s1) \<and> mailslot_open i s1 = Inr (r2, s2) \<longrightarrow>
      stored s2 = stored s \<and>
      map_sum id (\<lambda>(r, b, l, t). (r, b, l, stored t)) (getMessage buff i s2) =
      map_sum id (\<lambda>(r, b, l, t). (r, b, l, stored t)) (getMessage buff i s))"
proof (intro conjI impI)
  assume "mailslot_open i s = Inr (r, s')"
  then show "stored s' = stored s" by (rule mailslot_open_stored)
next
  assume "mailslot_release i s = Inr (r, s')"
  then show "stored s' = stored s" by (rule mailslot_release_stored)
next
  assume a: "mailslot_release i s = Inr (r1, s1) \<and> mailslot_open i s1 = Inr (r2, s2)"
  from a have "stored s1 = stored s" by (blast dest: mailslot_release_stored)
  moreover from a have "stored s2 = stored s1" by (blast dest: mailslot_open_stored)
  ultimately have e: "stored s2 = stored s" by simp
  {
    from e show "stored s2 = stored s" .
  next
    from e show "map_sum id (\<lambda>(r, b, l, t). (r, b, l, stored t)) (getMessage buff i s2) =
      map_sum id (\<lambda>(r, b, l, t). (r, b, l, stored t)) (getMessage buff i s)"
      by (rule getMessage_stored)
  }
qed

theorem open_release_keep_messages_witness:
  "mailslot_open 0 full_state = Inr (0, open_full_state) \<and>
   mailslot_release 0 open_full_state = Inr (0, full_state) \<and>
   stored open_full_state = stored full_state \<and>
   map_sum id (\<lambda>(r, b, l, t). (r, b, l, stored t)) (getMessage ''....'' 0 open_full_state) =
     Inr (0, ''x...'', 1, (stored full_state)[0 := (messages (instances full_state ! 0), 255)])"
proof -
  have p: "getMessage ''....'' 0 open_full_state =
     Inr (0, ''x...'', 1, open_full_state\<lparr>instances := (instances open_full_state)[0 :=
        (instances open_full_state ! 0)\<lparr>messages_count := 255\<rparr>]\<rparr>)"
    by (simp add: getMessage_def memcpy_def printk_s_def strlen_def open_full_state_def
        full_state_def fresh_state_eq)
  have m: "messages (instances open_full_state ! 0) = messages (instances full_state ! 0)"
    by (simp add: open_full_state_def full_state_def fresh_state_eq)
  have e: "stored open_full_state = stored full_state"
    using open_release_keep_messages [where i = 0 and s = full_state and r = 0
        and s' = open_full_state] open_full
    by simp
  have "stored full_state = stored open_full_state \<and>
    stored open_full_state = stored open_full_state"
    using open_release_keep_messages [where i = 0 and s = open_full_state and r = 0
        and s' = full_state and ?r1.0 = 0 and ?s1.0 = full_state and ?r2.0 = 0
        and ?s2.0 = open_full_state and buff = "''....''"]
      open_full release_open_full
    by simp
  with e show ?thesis
    using open_full release_open_full
    by (simp add: p stored_update_count m)
qed

subsection \<open>The counter of open mailslots\<close>

lemma filter_update_length:
  "i < length xs \<Longrightarrow>
     length (filter P (xs[i := y])) + (if P (xs ! i) then 1 else 0) =
       length (filter P xs) + (if P y then 1 else 0)"
proof (induction xs arbitrary: i)
  case Nil
  then show ?case by simp
next
  case (Cons x xs)
  show ?case
  proof (cases i)
    case 0
    then show ?thesis by simp
  next
    case (Suc k)
    with Cons.prems have "k < length xs" by simp
    from Cons.IH [OF this] Suc show ?thesis by simp
  qed
qed

lemma opened_total_flags:
  "opened_total s = int (length (filter (\<lambda>v. v \<noteq> 0) (map opened (instances s))))"
  by (simp add: opened_total_def filter_map o_def)

lemma opened_total_set:
  assumes "i < length (instances s)" "opened (instances s ! i) = 0"
  shows "opened_total (s\<lparr>instances := (instances s)[i := (instances s ! i)\<lparr>opened := 1\<rparr>],
                         instances_count := c\<rparr>) = opened_total s + 1"
  using filter_update_length [OF assms(1), of "\<lambda>m. opened m \<noteq> 0" "(instances s ! i)\<lparr>opened := 1\<rparr>"]
    assms(2)
  by (simp add: opened_total_def)

lemma opened_total_clear:
  assumes "i < length (instances s)" "opened (instances s ! i) \<noteq> 0"
  shows "opened_total (s\<lparr>instances := (instances s)[i := (instances s ! i)\<lparr>opened := 0\<rparr>],
                         instances_count := c\<rparr>) = opened_total s - 1"
  using filter_update_length [OF assms(1), of "\<lambda>m. opened m \<noteq> 0" "(instances s ! i)\<lparr>opened := 0\<rparr>"]
    assms(2)
  by (simp add: opened_total_def)

lemma mailslot_open_count:
  assumes "instances_count s = opened_total s" "mailslot_open i s = Inr (r, s')"
  shows "instances_count s' = opened_total s'"
proof (cases "instances_count s \<noteq> int INSTANCES \<and> i < length (instances s) \<and>
    opened (instances s ! i) = 0")
  case True
  with assms(2) have "s' = s\<lparr>instances := (instances s)[i := (instances s ! i)\<lparr>opened := 1\<rparr>],
      instances_count := instances_count s + 1\<rparr>"
    by (simp add: mailslot_open_def Let_def)
  with True assms(1) show ?thesis by (simp add: opened_total_set)
next
  case False
  with assms(2) have "s' = s"
    by (auto simp: mailslot_open_def Let_def split: if_splits)
  with assms(1) show ?thesis by simp
qed

lemma mailslot_release_count:
  assumes "instances_count s = opened_total s" "mailslot_release i s = Inr (r, s')"
  shows "instances_count s' = opened_total s'"
proof (cases "instances_count s \<noteq> 0 \<and> i < length (instances s) \<and>
    opened (instances s ! i) \<noteq> 0")
  case True
  with assms(2) have "s' = s\<lparr>instances := (instances s)[i := (instances s ! i)\<lparr>opened := 0\<rparr>],
      instances_count := instances_count s - 1\<rparr>"
    by (simp add: mailslot_release_def Let_def)
  with True assms(1) show ?thesis by (simp add: opened_total_clear)
next
  case False
  with assms(2) have "s' = s"
    by (auto simp: mailslot_release_def Let_def split: if_splits)
  with assms(1) show ?thesis by simp
qed

lemma step_count:
  assumes "instances_count s = opened_total s" "step r s = Inr (ret, s')"
  shows "instances_count s' = opened_total s'"
proof (cases r)
  case (Open j)
  with assms(2) have "mailslot_open j s = Inr (ret, s')" by simp
  from mailslot_open_count [OF assms(1) this] show ?thesis .
next
  case (Release j)
  with assms(2) have "mailslot_release j s = Inr (ret, s')" by simp
  from mailslot_release_count [OF assms(1) this] show ?thesis .
next
  case (Read lock j buff n off)
  with assms(2) obtain b off' where "mailslot_read lock j buff n off s = Inr (ret, b, off', s')"
    by (auto split: sum.splits)
  from mailslot_read_flags [OF this]
  have "opened_total s' = opened_total s" "instances_count s' = instances_count s"
    by (simp_all add: opened_total_flags)
  with assms(1) show ?thesis by simp
next
  case (Write lock j buff n off)
  with assms(2) have "mailslot_write lock j buff n off s = Inr (ret, s')" by simp
  from mailslot_write_flags [OF this]
  have "opened_total s' = opened_total s" "instances_count s' = instances_count s"
    by (simp_all add: opened_total_flags)
  with assms(1) show ?thesis by simp
qed

lemma run_count:
  "run rs s = Inr (rets, s') \<Longrightarrow> instances_count s = opened_total s \<Longrightarrow>
   instances_count s' = opened_total s'"
proof (induction rs arbitrary: s rets)
  case Nil
  then show ?case by simp
next
  case (Cons r rs)
  from Cons.prems(1) obtain ret s1 rets1 where
    st: "step r s = Inr (ret, s1)" and rn: "run rs s1 = Inr (rets1, s')"
    by (auto split: sum.splits)
  from Cons.IH [OF rn step_count [OF Cons.prems(2) st]] show ?case .
qed

lemma init_count: "instances_count (snd (init_module junk jl)) = opened_total (snd (init_module junk jl))"
  by (simp add: init_module_def opened_total_def filter_map o_def)

text \<open>
  C6. \<open>instances_count\<close> equals the number of mailslots whose \<open>opened\<close> flag is set:
  this holds in the state \<open>init_module\<close> sets up, every open, release, read and write
  keeps it, and so it holds after every sequence of such calls on the loaded module.
\<close>

theorem instances_count_invariant:
  "instances_count (snd (init_module junk jl)) = opened_total (snd (init_module junk jl)) \<and>
   (instances_count s = opened_total s \<and> step r s = Inr (ret, s') \<longrightarrow>
      instances_count s' = opened_total s') \<and>
   (run rs (snd (init_module junk jl)) = Inr (rets, t) \<longrightarrow> instances_count t = opened_total t)"
proof (intro conjI impI)
  show "instances_count (snd (init_module junk jl)) = opened_total (snd (init_module junk jl))"
    by (rule init_count)
next
  assume "instances_count s = opened_total s \<and> step r s = Inr (ret, s')"
  then show "instances_count s' = opened_total s'"
    using step_count by blast
next
  assume "run rs (snd (init_module junk jl)) = Inr (rets, t)"
  from run_count [OF this init_count] show "instances_count t = opened_total t" .
qed

theorem instances_count_invariant_witness:
  "(\<exists>s'. step (Open 2) fresh_state = Inr (0, s') \<and> instances_count s' = 1 \<and> opened_total s' = 1) \<and>
   (\<exists>t. run [Open 2, Write 0 3 ''hi'' 2 0, Open 5,
             Read 0 3 [CHR 0x00, CHR 0x00, CHR 0x00, CHR 0x00, CHR 0x00] 5 0,
             Release 2, Release 2] fresh_state = Inr ([0, 2, 0, 3, 0, - 1], t) \<and>
        instances_count t = 1 \<and> opened_total t = 1)"
proof -
  have f: "instances_count fresh_state = opened_total fresh_state"
    by (simp add: fresh_state_eq opened_total_def)
  have "\<exists>s'. step (Open 2) fresh_state = Inr (0, s') \<and> instances_count s' = 1"
    by (simp add: mailslot_open_def fresh_state_eq INSTANCES_def Let_def)
  then obtain s' where s': "step (Open 2) fresh_state = Inr (0, s')" "instances_count s' = 1"
    by blast
  from instances_count_invariant [where s = fresh_state and r = "Open 2" and ret = 0
      and s' = s'] f s'
  have a: "opened_total s' = 1" by simp
  have "\<exists>t. run [Open 2, Write 0 3 ''hi'' 2 0, Open 5,
             Read 0 3 [CHR 0x00, CHR 0x00, CHR 0x00, CHR 0x00, CHR 0x00] 5 0,
             Release 2, Release 2] fresh_state = Inr ([0, 2, 0, 3, 0, - 1], t) \<and>
        instances_count t = 1"
    by (simp add: mailslot_open_def mailslot_write_def mailslot_release_def pushMessage_def
        mailslot_read_def getMessage_def strcat_def strlen_def printk_s_def
        memcpy_def fresh_state_eq INSTANCES_def MAILSLOT_STORAGE_def Let_def)
  then obtain t where t: "run [Open 2, Write 0 3 ''hi'' 2 0, Open 5,
             Read 0 3 [CHR 0x00, CHR 0x00, CHR 0x00, CHR 0x00, CHR 0x00] 5 0,
             Release 2, Release 2] fresh_state = Inr ([0, 2, 0, 3, 0, - 1], t)"
    "instances_count t = 1"
    by blast
  from instances_count_invariant [where junk = "\<lambda>i j k. CHR 0x00" and jl = "\<lambda>i j. 0"
      and rs = "[Open 2, Write 0 3 ''hi'' 2 0, Open 5,
             Read 0 3 [CHR 0x00, CHR 0x00, CHR 0x00, CHR 0x00, CHR 0x00] 5 0,
             Release 2, Release 2]" and rets = "[0, 2, 0, 3, 0, - 1]" and t = t] t
  have b: "opened_total t = 1" by (simp add: fresh_state_def)
  from s' a t b show ?thesis by blast
qed

subsection \<open>Well-formed states, push and pop\<close>

lemma wf_mailslot_nth:
  "wf_mailslot m \<longleftrightarrow>
     length (messages m) = MAILSLOT_STORAGE \<and>
     0 \<le> messages_count m \<and> messages_count m \<le> int MAILSLOT_STORAGE \<and>
     (\<forall>j < MAILSLOT_STORAGE. length (content (messages m ! j)) = MESSAGE_SIZE) \<and>
     (\<forall>j < nat (messages_count m).
        len (messages m ! j) \<le> MESSAGE_SIZE \<and> CHR 0x00 \<in> set (content (messages m ! j)))"
  by (auto simp: wf_mailslot_def list_all_length)

lemma wf_nth:
  "wf s \<longleftrightarrow> length (instances s) = INSTANCES \<and> (\<forall>i < INSTANCES. wf_mailslot (instances s ! i))"
  by (auto simp: wf_def list_all_length)

lemma wf_update:
  "wf s \<Longrightarrow> wf_mailslot m \<Longrightarrow> wf (s\<lparr>instances := (instances s)[i := m]\<rparr>)"
  by (cases "i < length (instances s)") (auto simp: wf_nth nth_list_update)

lemma take_Suc_update: "k < length xs \<Longrightarrow> take (Suc k) (xs[k := y]) = take k xs @ [y]"
  by (simp add: take_Suc_conv_app_nth)

text \<open>
  A push into a mailslot that is not full succeeds when the message fits the slot and
  the slot's buffer holds a NUL byte after the copy, so that the \<open>printk\<close> of the buffer
  stays inside it. It appends the message to the live ones and writes no other slot.
\<close>

lemma pushMessage_live:
  assumes "wf s" "inst < INSTANCES" "messages_count (instances s ! inst) \<noteq> int MAILSLOT_STORAGE"
    "n \<le> length buff" "n \<le> MESSAGE_SIZE"
    "CHR 0x00 \<in> set (take n buff @ drop n (content (messages (instances s ! inst) !
        nat (messages_count (instances s ! inst)))))"
  shows "\<exists>s'. pushMessage buff n inst s = Inr (0, s') \<and> wf s' \<and>
     live s' inst = live s inst @ [take n buff] \<and>
     messages_count (instances s' ! inst) = messages_count (instances s ! inst) + 1 \<and>
     (\<forall>j. j \<noteq> nat (messages_count (instances s ! inst)) \<longrightarrow>
        messages (instances s' ! inst) ! j = messages (instances s ! inst) ! j)"
proof -
  define m where "m = instances s ! inst"
  define k where "k = nat (messages_count m)"
  define msg where "msg = (messages m ! k)\<lparr>content := take n buff @ drop n (content (messages m ! k)), len := n\<rparr>"
  define m' where "m' = m\<lparr>messages := (messages m)[k := msg], messages_count := messages_count m + 1\<rparr>"
  from assms(1,2) have il: "inst < length (instances s)" and wm: "wf_mailslot m"
    by (simp_all add: wf_nth m_def)
  from wm assms(3) have c: "0 \<le> messages_count m" "messages_count m < int MAILSLOT_STORAGE"
    and lm: "length (messages m) = MAILSLOT_STORAGE"
    by (simp_all add: wf_mailslot_nth m_def)
  from c have k: "k < MAILSLOT_STORAGE" "int k = messages_count m" by (simp_all add: k_def)
  from wm k have lc: "length (content (messages m ! k)) = MESSAGE_SIZE"
    by (simp add: wf_mailslot_nth)
  from assms(6) have nul: "CHR 0x00 \<in> set (content msg)"
    by (simp add: msg_def m_def k_def)
  then have pk: "printk_s (take n buff @ drop n (content (messages m ! k))) = Inr ()"
    by (simp add: printk_s_nul msg_def)
  have push: "pushMessage buff n inst s = Inr (0, s\<lparr>instances := (instances s)[inst := m']\<rparr>)"
    using il c k lm lc assms(3,4,5) pk
    by (simp add: pushMessage_def Let_def memcpy_def m_def [symmetric] k_def [symmetric]
        m'_def msg_def)
  have lmsg: "length (content msg) = MESSAGE_SIZE" "len msg = n"
    using lc assms(4,5) by (simp_all add: msg_def)
  have wm': "wf_mailslot m'"
    using wm k lmsg nul assms(5)
    by (auto simp: wf_mailslot_nth m'_def nth_list_update less_Suc_eq nat_add_distrib)
  have "live (s\<lparr>instances := (instances s)[inst := m']\<rparr>) inst =
      map (\<lambda>msg. take (len msg) (content msg)) (take (Suc k) ((messages m)[k := msg]))"
    using il c by (simp add: live_def m'_def nat_add_distrib k_def)
  also have "\<dots> = live s inst @ [take n buff]"
    using k lm assms(4)
    by (simp add: take_Suc_update live_def m_def [symmetric] k_def [symmetric] msg_def)
  finally have lv: "live (s\<lparr>instances := (instances s)[inst := m']\<rparr>) inst =
      live s inst @ [take n buff]" .
  have cnt: "messages_count ((instances s)[inst := m'] ! inst) = messages_count m + 1"
    using il by (simp add: m'_def)
  have oth: "\<forall>j. j \<noteq> k \<longrightarrow> messages ((instances s)[inst := m'] ! inst) ! j = messages m ! j"
    using il by (simp add: m'_def)
  from push wf_update [OF assms(1) wm'] lv cnt oth show ?thesis
    by (simp add: m_def k_def)
qed

text \<open>When the buffer holds no NUL byte after the copy, the same push reads past it.\<close>

lemma pushMessage_unterminated:
  assumes "wf s" "inst < INSTANCES" "messages_count (instances s ! inst) \<noteq> int MAILSLOT_STORAGE"
    "n \<le> length buff" "n \<le> MESSAGE_SIZE"
    "CHR 0x00 \<notin> set (take n buff @ drop n (content (messages (instances s ! inst) !
        nat (messages_count (instances s ! inst)))))"
  shows "pushMessage buff n inst s = Inl ReadOverrun"
proof -
  define m where "m = instances s ! inst"
  define k where "k = nat (messages_count m)"
  from assms(1,2) have il: "inst < length (instances s)" and wm: "wf_mailslot m"
    by (simp_all add: wf_nth m_def)
  from wm assms(3) have c: "0 \<le> messages_count m" "messages_count m < int MAILSLOT_STORAGE"
    and lm: "length (messages m) = MAILSLOT_STORAGE"
    by (simp_all add: wf_mailslot_nth m_def)
  from c have k: "k < MAILSLOT_STORAGE" "int k = messages_count m" by (simp_all add: k_def)
  from wm k have lc: "length (content (messages m ! k)) = MESSAGE_SIZE"
    by (simp add: wf_mailslot_nth)
  from assms(6) have "printk_s (take n buff @ drop n (content (messages m ! k))) = Inl ReadOverrun"
    by (rule_tac printk_s_no_nul) (simp add: m_def k_def)
  with il c k lm lc assms(3,4,5) show ?thesis
    by (simp add: pushMessage_def Let_def memcpy_def m_def [symmetric] k_def [symmetric])
qed

lemma getMessage_nonempty:
  assumes "wf s" "inst < INSTANCES" "0 < messages_count (instances s ! inst)"
    "len (messages (instances s ! inst) ! nat (messages_count (instances s ! inst) - 1))
       \<le> length buff"
  shows "getMessage buff inst s =
     (let m = instances s ! inst; top = messages m ! nat (messages_count m - 1) in
      Inr (0, take (len top) (content top) @ drop (len top) buff, len top,
           s\<lparr>instances := (instances s)[inst := m\<lparr>messages_count := messages_count m - 1\<rparr>]\<rparr>))"
proof -
  define m where "m = instances s ! inst"
  from assms(1,2) have il: "inst < length (instances s)" and wm: "wf_mailslot m"
    by (simp_all add: wf_nth m_def)
  from wm assms(3) have c: "0 < messages_count m" "messages_count m \<le> int MAILSLOT_STORAGE"
    and lm: "length (messages m) = MAILSLOT_STORAGE"
    by (simp_all add: wf_mailslot_nth m_def)
  from c have k: "nat (messages_count m - 1) < MAILSLOT_STORAGE"
    "nat (messages_count m - 1) < nat (messages_count m)" by simp_all
  with wm have "length (content (messages m ! nat (messages_count m - 1))) = MESSAGE_SIZE"
    "len (messages m ! nat (messages_count m - 1)) \<le> MESSAGE_SIZE"
    "printk_s (content (messages m ! nat (messages_count m - 1))) = Inr ()"
    by (simp_all add: wf_mailslot_nth printk_s_nul)
  with il c k lm assms(4) show ?thesis
    by (simp add: getMessage_def Let_def memcpy_def m_def [symmetric])
qed

lemma getMessage_live:
  assumes "wf s" "inst < INSTANCES" "0 < messages_count (instances s ! inst)"
    "length (last (live s inst)) \<le> length buff"
  shows "\<exists>s'. getMessage buff inst s =
       Inr (0, last (live s inst) @ drop (length (last (live s inst))) buff,
            length (last (live s inst)), s') \<and>
     wf s' \<and> live s' inst = butlast (live s inst) \<and>
     messages_count (instances s' ! inst) = messages_count (instances s ! inst) - 1"
proof -
  define m where "m = instances s ! inst"
  define k where "k = nat (messages_count m)"
  define top where "top = messages m ! (k - 1)"
  define m' where "m' = m\<lparr>messages_count := messages_count m - 1\<rparr>"
  from assms(1,2) have il: "inst < length (instances s)" and wm: "wf_mailslot m"
    by (simp_all add: wf_nth m_def)
  from wm assms(3) have c: "0 < messages_count m" "messages_count m \<le> int MAILSLOT_STORAGE"
    and lm: "length (messages m) = MAILSLOT_STORAGE"
    by (simp_all add: wf_mailslot_nth m_def)
  from c lm have k: "0 < k" "k \<le> length (messages m)" "nat (messages_count m - 1) = k - 1"
    by (simp_all add: k_def nat_diff_distrib)
  from wm k lm have lt: "length (content top) = MESSAGE_SIZE" "len top \<le> MESSAGE_SIZE"
    by (simp_all add: wf_mailslot_nth top_def k_def [symmetric])
  from k have ne: "take k (messages m) \<noteq> []" by auto
  from k have "last (take k (messages m)) = top"
    by (simp add: last_conv_nth [OF ne] top_def min_def)
  then have "last (live s inst) = take (len top) (content top)"
    using ne
    by (simp add: live_def m_def [symmetric] k_def [symmetric] last_map)
  with lt have la: "last (live s inst) = take (len top) (content top)"
    "length (last (live s inst)) = len top"
    by simp_all
  from assms(4) la k have "len (messages (instances s ! inst) !
      nat (messages_count (instances s ! inst) - 1)) \<le> length buff"
    by (simp add: m_def [symmetric] top_def)
  from getMessage_nonempty [OF assms(1,2,3) this] la k
  have pop: "getMessage buff inst s =
       Inr (0, last (live s inst) @ drop (length (last (live s inst))) buff,
            length (last (live s inst)), s\<lparr>instances := (instances s)[inst := m']\<rparr>)"
    by (simp add: Let_def m_def [symmetric] top_def m'_def)
  have wm': "wf_mailslot m'"
    using wm c by (auto simp: wf_mailslot_nth m'_def)
  have "live (s\<lparr>instances := (instances s)[inst := m']\<rparr>) inst =
      map (\<lambda>msg. take (len msg) (content msg)) (take (k - 1) (messages m))"
    using il k by (simp add: live_def m'_def)
  also have "\<dots> = butlast (live s inst)"
    using k
    by (simp add: live_def m_def [symmetric] k_def [symmetric] map_butlast [symmetric] butlast_take)
  finally have lv: "live (s\<lparr>instances := (instances s)[inst := m']\<rparr>) inst =
      butlast (live s inst)" .
  have "messages_count ((instances s)[inst := m'] ! inst) = messages_count m - 1"
    using il by (simp add: m'_def)
  with pop wf_update [OF assms(1) wm'] lv show ?thesis
    by (simp add: m_def)
qed

lemma wf_fresh_state: "wf fresh_state"
  by (simp add: wf_nth wf_mailslot_nth fresh_state_eq INSTANCES_def MAILSLOT_STORAGE_def
      MESSAGE_SIZE_def)

lemma wf_full_state: "wf full_state"
  by (simp add: wf_nth wf_mailslot_nth full_state_def fresh_state_eq INSTANCES_def
      MAILSLOT_STORAGE_def MESSAGE_SIZE_def nth_list_update)

lemma wf_init_module: "wf (snd (init_module junk jl))"
  by (simp add: wf_nth wf_mailslot_nth length_instances_init nth_instances_init)

text \<open>
  A module whose slot buffers were allocated full of bytes \<open>0xAA\<close>: a push of the
  one-byte message \<open>a\<close> leaves no NUL byte in the slot, and its \<open>printk\<close> reads past it.
\<close>

lemma pushMessage_junk_unterminated:
  "pushMessage ''a'' 1 0 (snd (init_module (\<lambda>i j k. CHR 0xAA) (\<lambda>i j. 0))) = Inl ReadOverrun"
proof (rule pushMessage_unterminated [OF wf_init_module])
  show "0 < INSTANCES" by (simp add: INSTANCES_def)
  show "messages_count (instances (snd (init_module (\<lambda>i j k. CHR 0xAA) (\<lambda>i j. 0))) ! 0) \<noteq>
      int MAILSLOT_STORAGE"
    by (simp add: nth_instances_init INSTANCES_def MAILSLOT_STORAGE_def)
  show "1 \<le> length ''a''" by simp
  show "1 \<le> MESSAGE_SIZE" by (simp add: MESSAGE_SIZE_def)
  show "CHR 0x00 \<notin> set (take 1 ''a'' @ drop 1 (content (messages
      (instances (snd (init_module (\<lambda>i j k. CHR 0xAA) (\<lambda>i j. 0))) ! 0) !
      nat (messages_count (instances (snd (init_module (\<lambda>i j k. CHR 0xAA) (\<lambda>i j. 0))) ! 0)))))"
    by (auto simp: nth_instances_init INSTANCES_def MAILSLOT_STORAGE_def dest: in_set_dropD)
qed

text \<open>
  C1. Pop is last-in first-out. On every mailslot of a well-formed state, a pop from a
  non-empty mailslot returns 0, copies the message of slot \<open>messages_count - 1\<close> (the
  one pushed last) into the caller's buffer, reports its length, and subtracts one from
  \<open>messages_count\<close>. Pushing three messages \<open>a\<close>, \<open>b\<close>, \<open>c\<close> and popping three times
  yields \<open>c\<close>, then \<open>b\<close>, then \<open>a\<close>, and leaves the earlier messages as they were.
  The three pushes are those the driver performs without leaving a buffer: the mailslot
  has room for three more messages, each message is at most \<open>MESSAGE_SIZE\<close> bytes, and
  each of the three slots holds a NUL byte once its message is copied in (in the message
  or in the bytes of the slot behind it), so that the \<open>printk\<close> of the slot ends inside
  it; \<open>pushMessage_unterminated\<close> shows that a push without such a byte reads past the
  slot. The caller's buffer has room for a whole slot.
\<close>

theorem getMessage_lifo:
  assumes "wf s" "inst < INSTANCES"
  shows
    "(0 < messages_count (instances s ! inst) \<and>
      len (messages (instances s ! inst) ! nat (messages_count (instances s ! inst) - 1))
        \<le> length buff \<longrightarrow>
      getMessage buff inst s =
        (let m = instances s ! inst; top = messages m ! nat (messages_count m - 1) in
         Inr (0, take (len top) (content top) @ drop (len top) buff, len top,
              s\<lparr>instances := (instances s)[inst := m\<lparr>messages_count := messages_count m - 1\<rparr>]\<rparr>))) \<and>
     (messages_count (instances s ! inst) + 3 \<le> int MAILSLOT_STORAGE \<and>
      length a \<le> MESSAGE_SIZE \<and> length b \<le> MESSAGE_SIZE \<and> length c \<le> MESSAGE_SIZE \<and>
      CHR 0x00 \<in> set (a @ drop (length a) (content (messages (instances s ! inst) !
          nat (messages_count (instances s ! inst))))) \<and>
      CHR 0x00 \<in> set (b @ drop (length b) (content (messages (instances s ! inst) !
          (nat (messages_count (instances s ! inst)) + 1)))) \<and>
      CHR 0x00 \<in> set (c @ drop (length c) (content (messages (instances s ! inst) !
          (nat (messages_count (instances s ! inst)) + 2)))) \<and>
      MESSAGE_SIZE \<le> length buff \<longrightarrow>
      (\<exists>s1 s2 s3 s4 s5 s6.
         pushMessage a (length a) inst s = Inr (0, s1) \<and>
         pushMessage b (length b) inst s1 = Inr (0, s2) \<and>
         pushMessage c (length c) inst s2 = Inr (0, s3) \<and>
         getMessage buff inst s3 = Inr (0, c @ drop (length c) buff, length c, s4) \<and>
         getMessage buff inst s4 = Inr (0, b @ drop (length b) buff, length b, s5) \<and>
         getMessage buff inst s5 = Inr (0, a @ drop (length a) buff, length a, s6) \<and>
         messages_count (instances s6 ! inst) = messages_count (instances s ! inst) \<and>
         live s6 inst = live s inst))"
proof (intro conjI impI)
  assume "0 < messages_count (instances s ! inst) \<and>
      len (messages (instances s ! inst) ! nat (messages_count (instances s ! inst) - 1))
        \<le> length buff"
  then show "getMessage buff inst s =
        (let m = instances s ! inst; top = messages m ! nat (messages_count m - 1) in
         Inr (0, take (len top) (content top) @ drop (len top) buff, len top,
              s\<lparr>instances := (instances s)[inst := m\<lparr>messages_count := messages_count m - 1\<rparr>]\<rparr>))"
    using getMessage_nonempty [OF assms] by simp
next
  define m where "m = instances s ! inst"
  define k where "k = nat (messages_count m)"
  assume "messages_count (instances s ! inst) + 3 \<le> int MAILSLOT_STORAGE \<and>
      length a \<le> MESSAGE_SIZE \<and> length b \<le> MESSAGE_SIZE \<and> length c \<le> MESSAGE_SIZE \<and>
      CHR 0x00 \<in> set (a @ drop (length a) (content (messages (instances s ! inst) !
          nat (messages_count (instances s ! inst))))) \<and>
      CHR 0x00 \<in> set (b @ drop (length b) (content (messages (instances s ! inst) !
          (nat (messages_count (instances s ! inst)) + 1)))) \<and>
      CHR 0x00 \<in> set (c @ drop (length c) (content (messages (instances s ! inst) !
          (nat (messages_count (instances s ! inst)) + 2)))) \<and>
      MESSAGE_SIZE \<le> length buff"
  then have h: "messages_count m + 3 \<le> int MAILSLOT_STORAGE"
      "length a \<le> MESSAGE_SIZE" "length b \<le> MESSAGE_SIZE" "length c \<le> MESSAGE_SIZE"
      "MESSAGE_SIZE \<le> length buff"
    and za: "CHR 0x00 \<in> set (a @ drop (length a) (content (messages m ! k)))"
    and zb: "CHR 0x00 \<in> set (b @ drop (length b) (content (messages m ! (k + 1))))"
    and zc: "CHR 0x00 \<in> set (c @ drop (length c) (content (messages m ! (k + 2))))"
    by (simp_all add: m_def k_def)
  from assms have c0: "0 \<le> messages_count m"
    by (simp add: wf_nth wf_mailslot_nth m_def)
  from h have n0: "messages_count (instances s ! inst) \<noteq> int MAILSLOT_STORAGE"
    by (simp add: m_def)
  from za have "CHR 0x00 \<in> set (take (length a) a @ drop (length a)
      (content (messages (instances s ! inst) ! nat (messages_count (instances s ! inst)))))"
    by (simp add: m_def k_def)
  from pushMessage_live [OF assms n0 _ _ this] h obtain s1 where
    p1: "pushMessage a (length a) inst s = Inr (0, s1)" and w1: "wf s1" and
    l1: "live s1 inst = live s inst @ [a]" and
    c1: "messages_count (instances s1 ! inst) = messages_count m + 1" and
    o1: "\<forall>j. j \<noteq> k \<longrightarrow> messages (instances s1 ! inst) ! j = messages m ! j"
    by (auto simp: m_def k_def)
  from c0 c1 have k1: "nat (messages_count (instances s1 ! inst)) = k + 1"
    by (simp add: k_def)
  from h c1 have n1: "messages_count (instances s1 ! inst) \<noteq> int MAILSLOT_STORAGE" by simp
  from zb o1 k1 have "CHR 0x00 \<in> set (take (length b) b @ drop (length b)
      (content (messages (instances s1 ! inst) ! nat (messages_count (instances s1 ! inst)))))"
    by simp
  from pushMessage_live [OF w1 assms(2) n1 _ _ this] h obtain s2 where
    p2: "pushMessage b (length b) inst s1 = Inr (0, s2)" and w2: "wf s2" and
    l2: "live s2 inst = live s1 inst @ [b]" and
    c2: "messages_count (instances s2 ! inst) = messages_count (instances s1 ! inst) + 1" and
    o2: "\<forall>j. j \<noteq> k + 1 \<longrightarrow>
      messages (instances s2 ! inst) ! j = messages (instances s1 ! inst) ! j"
    by (auto simp: k1)
  from c0 c1 c2 have k2: "nat (messages_count (instances s2 ! inst)) = k + 2"
    by (simp add: k_def)
  from h c1 c2 have n2: "messages_count (instances s2 ! inst) \<noteq> int MAILSLOT_STORAGE" by simp
  from zc o1 o2 k2 have "CHR 0x00 \<in> set (take (length c) c @ drop (length c)
      (content (messages (instances s2 ! inst) ! nat (messages_count (instances s2 ! inst)))))"
    by simp
  from pushMessage_live [OF w2 assms(2) n2 _ _ this] h obtain s3 where
    p3: "pushMessage c (length c) inst s2 = Inr (0, s3)" and w3: "wf s3" and
    l3: "live s3 inst = live s2 inst @ [c]" and
    c3: "messages_count (instances s3 ! inst) = messages_count (instances s2 ! inst) + 1"
    by auto
  from c0 c1 c2 c3 have g3: "0 < messages_count (instances s3 ! inst)" by simp
  from h l3 have "length (last (live s3 inst)) \<le> length buff" by simp
  from getMessage_live [OF w3 assms(2) g3 this] l3 obtain s4 where
    q3: "getMessage buff inst s3 = Inr (0, c @ drop (length c) buff, length c, s4)" and
    w4: "wf s4" and l4: "live s4 inst = live s2 inst" and
    c4: "messages_count (instances s4 ! inst) = messages_count (instances s3 ! inst) - 1"
    by auto
  from c0 c1 c2 c3 c4 have g4: "0 < messages_count (instances s4 ! inst)" by simp
  from h l4 l2 have "length (last (live s4 inst)) \<le> length buff" by simp
  from getMessage_live [OF w4 assms(2) g4 this] l4 l2 obtain s5 where
    q4: "getMessage buff inst s4 = Inr (0, b @ drop (length b) buff, length b, s5)" and
    w5: "wf s5" and l5: "live s5 inst = live s1 inst" and
    c5: "messages_count (instances s5 ! inst) = messages_count (instances s4 ! inst) - 1"
    by auto
  from c0 c1 c2 c3 c4 c5 have g5: "0 < messages_count (instances s5 ! inst)" by simp
  from h l5 l1 have "length (last (live s5 inst)) \<le> length buff" by simp
  from getMessage_live [OF w5 assms(2) g5 this] l5 l1 obtain s6 where
    q5: "getMessage buff inst s5 = Inr (0, a @ drop (length a) buff, length a, s6)" and
    l6: "live s6 inst = live s inst" and
    c6: "messages_count (instances s6 ! inst) = messages_count (instances s5 ! inst) - 1"
    by auto
  from c1 c2 c3 c4 c5 c6
  have "messages_count (instances s6 ! inst) = messages_count (instances s ! inst)"
    by (simp add: m_def)
  with p1 p2 p3 q3 q4 q5 l6 show "\<exists>s1 s2 s3 s4 s5 s6.
         pushMessage a (length a) inst s = Inr (0, s1) \<and>
         pushMessage b (length b) inst s1 = Inr (0, s2) \<and>
         pushMessage c (length c) inst s2 = Inr (0, s3) \<and>
         getMessage buff inst s3 = Inr (0, c @ drop (length c) buff, length c, s4) \<and>
         getMessage buff inst s4 = Inr (0, b @ drop (length b) buff, length b, s5) \<and>
         getMessage buff inst s5 = Inr (0, a @ drop (length a) buff, length a, s6) \<and>
         messages_count (instances s6 ! inst) = messages_count (instances s ! inst) \<and>
         live s6 inst = live s inst"
    by blast
qed

theorem getMessage_lifo_witness:
  "getMessage ''....'' 0 full_state =
     Inr (0, ''x...'', 1,
          full_state\<lparr>instances := (instances full_state)[0 :=
            (instances full_state ! 0)\<lparr>messages_count := 255\<rparr>]\<rparr>) \<and>
   (\<exists>s1 s2 s3 s4 s5 s6.
      pushMessage ''a'' 1 0 fresh_state = Inr (0, s1) \<and>
      pushMessage ''b'' 1 0 s1 = Inr (0, s2) \<and>
      pushMessage ''c'' 1 0 s2 = Inr (0, s3) \<and>
      getMessage (replicate 256 (CHR ''.'')) 0 s3 =
        Inr (0, ''c'' @ replicate 255 (CHR ''.''), 1, s4) \<and>
      getMessage (replicate 256 (CHR ''.'')) 0 s4 =
        Inr (0, ''b'' @ replicate 255 (CHR ''.''), 1, s5) \<and>
      getMessage (replicate 256 (CHR ''.'')) 0 s5 =
        Inr (0, ''a'' @ replicate 255 (CHR ''.''), 1, s6) \<and>
      messages_count (instances s6 ! 0) = 0 \<and> live s6 0 = [])"
proof -
  have i: "0 < INSTANCES" by (simp add: INSTANCES_def)
  have t: "messages (instances full_state ! 0) ! 255 =
      \<lparr>content = CHR ''x'' # replicate 255 (CHR 0x00), len = 1\<rparr>"
    "messages_count (instances full_state ! 0) = 256"
    by (simp_all add: full_state_def fresh_state_eq)
  have f: "messages_count (instances fresh_state ! 0) = 0" "live fresh_state 0 = []"
    "\<forall>j < 256. content (messages (instances fresh_state ! 0) ! j) = replicate 256 (CHR 0x00)"
    by (simp_all add: fresh_state_eq live_def)
  have "getMessage ''....'' 0 full_state =
     Inr (0, ''x...'', 1,
          full_state\<lparr>instances := (instances full_state)[0 :=
            (instances full_state ! 0)\<lparr>messages_count := 255\<rparr>]\<rparr>)"
    using getMessage_lifo [OF wf_full_state i, of "''....''"] t
    by (simp add: Let_def)
  moreover have "\<exists>s1 s2 s3 s4 s5 s6.
      pushMessage ''a'' 1 0 fresh_state = Inr (0, s1) \<and>
      pushMessage ''b'' 1 0 s1 = Inr (0, s2) \<and>
      pushMessage ''c'' 1 0 s2 = Inr (0, s3) \<and>
      getMessage (replicate 256 (CHR ''.'')) 0 s3 =
        Inr (0, ''c'' @ replicate 255 (CHR ''.''), 1, s4) \<and>
      getMessage (replicate 256 (CHR ''.'')) 0 s4 =
        Inr (0, ''b'' @ replicate 255 (CHR ''.''), 1, s5) \<and>
      getMessage (replicate 256 (CHR ''.'')) 0 s5 =
        Inr (0, ''a'' @ replicate 255 (CHR ''.''), 1, s6) \<and>
      messages_count (instances s6 ! 0) = 0 \<and> live s6 0 = []"
    using getMessage_lifo [OF wf_fresh_state i, of "replicate 256 (CHR ''.'')" "''a''" "''b''" "''c''"] f
    by (simp add: MAILSLOT_STORAGE_def MESSAGE_SIZE_def)
  ultimately show ?thesis by blast
qed

subsection \<open>Filling a mailslot\<close>

lemma filled_0: "filled 0 = fresh_state"
  by (simp add: filled_def fresh_state_eq list_update_same_conv)

lemma filled_256: "filled 256 = full_state"
  by (simp add: filled_def full_state_def)

lemma replicate_append_update:
  "k < n \<Longrightarrow> (replicate k x @ replicate (n - k) z)[k := x] =
     replicate (Suc k) x @ replicate (n - Suc k) z"
proof -
  assume "k < n"
  then obtain d where d: "n - k = Suc d" "n - Suc k = d"
    by (cases "n - k") auto
  then show ?thesis
    by (simp add: list_update_append replicate_append_same)
qed

lemma replicate_append_nth:
  "k < n \<Longrightarrow> (replicate k x @ replicate (n - k) z) ! k = z"
  by (simp add: nth_append)

lemma write_filled:
  assumes "k < 256"
  shows "mailslot_write 0 0 ''x'' 1 0 (filled k) = Inr (1, filled (Suc k))"
proof -
  have z: "content \<lparr>content = replicate 256 (CHR 0x00), len = 0\<rparr> = replicate 256 (CHR 0x00)"
    by simp
  have d: "drop 1 (replicate 256 (CHR 0x00)) = replicate 255 (CHR 0x00)"
    by simp
  from assms show ?thesis
    unfolding mailslot_write_def pushMessage_def filled_def fresh_state_eq
    by (simp add: Let_def memcpy_def printk_s_def strlen_def MAILSLOT_STORAGE_def
        replicate_append_nth replicate_append_update ac_simps)
qed

lemma run_filled:
  "k + j \<le> 256 \<Longrightarrow>
   run (replicate j (Write 0 0 ''x'' 1 0)) (filled k) = Inr (replicate j 1, filled (k + j))"
proof (induction j arbitrary: k)
  case 0
  then show ?case by simp
next
  case (Suc j)
  then have "k < 256" "Suc k + j \<le> 256" by simp_all
  from write_filled [OF this(1)] Suc.IH [OF this(2)] show ?case by simp
qed

subsection \<open>Every reachable state is well formed\<close>

lemma wf_mailslot_opened: "wf_mailslot (m\<lparr>opened := v\<rparr>) = wf_mailslot m"
  by (simp add: wf_mailslot_def)

lemma mailslot_open_wf: "wf s \<Longrightarrow> mailslot_open i s = Inr (r, s') \<Longrightarrow> wf s'"
  by (auto simp: mailslot_open_def Let_def wf_nth nth_list_update wf_mailslot_opened
      split: if_splits)

lemma mailslot_release_wf: "wf s \<Longrightarrow> mailslot_release i s = Inr (r, s') \<Longrightarrow> wf s'"
  by (auto simp: mailslot_release_def Let_def wf_nth nth_list_update wf_mailslot_opened
      split: if_splits)

lemma pushMessage_wf:
  assumes "wf s" "pushMessage buff n inst s = Inr (r, s')"
  shows "wf s'"
proof (cases "messages_count (instances s ! inst) = int MAILSLOT_STORAGE")
  case True
  with assms show ?thesis by (auto simp: pushMessage_def Let_def split: if_splits)
next
  case False
  from assms(2) have il: "inst < length (instances s)"
    by (auto simp: pushMessage_def split: if_splits)
  with assms(1) have i: "inst < INSTANCES" and wm: "wf_mailslot (instances s ! inst)"
    by (simp_all add: wf_nth)
  from wm False have "0 \<le> messages_count (instances s ! inst)"
    "messages_count (instances s ! inst) < int MAILSLOT_STORAGE"
    by (simp_all add: wf_mailslot_nth)
  then have k: "nat (messages_count (instances s ! inst)) < MAILSLOT_STORAGE"
    "0 \<le> messages_count (instances s ! inst)"
    by simp_all
  with wm have lc: "length (content (messages (instances s ! inst) !
      nat (messages_count (instances s ! inst)))) = MESSAGE_SIZE"
    "length (messages (instances s ! inst)) = MAILSLOT_STORAGE"
    by (simp_all add: wf_mailslot_nth)
  from assms(2) il False k lc have n: "n \<le> length buff" "n \<le> MESSAGE_SIZE"
    by (auto simp: pushMessage_def Let_def memcpy_def split: if_splits sum.splits)
  have "CHR 0x00 \<in> set (take n buff @ drop n (content (messages (instances s ! inst) !
        nat (messages_count (instances s ! inst)))))"
  proof (rule ccontr)
    assume "CHR 0x00 \<notin> set (take n buff @ drop n (content (messages (instances s ! inst) !
        nat (messages_count (instances s ! inst)))))"
    from pushMessage_unterminated [OF assms(1) i False n this] assms(2) show False by simp
  qed
  from pushMessage_live [OF assms(1) i False n this] assms(2) show ?thesis by auto
qed

lemma getMessage_wf:
  assumes "wf s" "getMessage buff inst s = Inr (r, b, l, s')"
  shows "wf s'"
proof (cases "messages_count (instances s ! inst) = 0")
  case True
  with assms show ?thesis
    by (auto simp: getMessage_def Let_def split: if_splits sum.splits)
next
  case False
  from assms(2) have il: "inst < length (instances s)"
    by (auto simp: getMessage_def split: if_splits)
  with assms(1) have wm: "wf_mailslot (instances s ! inst)"
    by (simp add: wf_nth)
  with False have "wf_mailslot ((instances s ! inst)\<lparr>messages_count :=
      messages_count (instances s ! inst) - 1\<rparr>)"
    by (auto simp: wf_mailslot_nth)
  from wf_update [OF assms(1) this] assms(2) il False show ?thesis
    by (auto simp: getMessage_def Let_def split: if_splits sum.splits)
qed

lemma step_wf:
  assumes "wf s" "step r s = Inr (ret, s')"
  shows "wf s'"
proof (cases r)
  case (Open j)
  with assms show ?thesis by (auto dest: mailslot_open_wf)
next
  case (Release j)
  with assms show ?thesis by (auto dest: mailslot_release_wf)
next
  case (Read lock j buff n off)
  with assms show ?thesis
    by (auto simp: mailslot_read_def split: if_splits sum.splits dest: getMessage_wf)
next
  case (Write lock j buff n off)
  with assms show ?thesis
    by (auto simp: mailslot_write_def split: if_splits sum.splits dest: pushMessage_wf)
qed

lemma run_wf: "run rs s = Inr (rets, s') \<Longrightarrow> wf s \<Longrightarrow> wf s'"
proof (induction rs arbitrary: s rets)
  case Nil
  then show ?case by simp
next
  case (Cons r rs)
  from Cons.prems(1) obtain ret s1 rets1 where
    st: "step r s = Inr (ret, s1)" and rn: "run rs s1 = Inr (rets1, s')"
    by (auto split: sum.splits)
  from Cons.IH [OF rn step_wf [OF Cons.prems(2) st]] show ?case .
qed

lemma opened_total_bounds: "0 \<le> opened_total s \<and> opened_total s \<le> int (length (instances s))"
  by (simp add: opened_total_def)

text \<open>
  Every state the loaded module reaches is well formed and has its counters in
  \<open>[0, 256]\<close>: no C \<open>int\<close> of the driver ever comes near its bounds.
\<close>

lemma reachable_bounds:
  assumes "run rs (snd (init_module junk jl)) = Inr (rets, t)" "i < INSTANCES"
  shows "wf t \<and> 0 \<le> instances_count t \<and> instances_count t \<le> 256 \<and>
     0 \<le> messages_count (instances t ! i) \<and> messages_count (instances t ! i) \<le> 256"
proof -
  from run_wf [OF assms(1) wf_init_module] have w: "wf t" .
  from run_count [OF assms(1) init_count] have "instances_count t = opened_total t" .
  with opened_total_bounds [of t] w have "0 \<le> instances_count t \<and> instances_count t \<le> 256"
    by (simp add: wf_nth INSTANCES_def)
  moreover from w assms(2) have "0 \<le> messages_count (instances t ! i) \<and>
      messages_count (instances t ! i) \<le> 256"
    by (simp add: wf_nth wf_mailslot_nth MAILSLOT_STORAGE_def)
  ultimately show ?thesis using w by simp
qed

subsection \<open>Writing to a full mailslot\<close>

lemma mailslot_write_full:
  "minor < length (instances s) \<Longrightarrow>
   messages_count (instances s ! minor) = int MAILSLOT_STORAGE \<Longrightarrow>
   mailslot_write 0 minor buff n off s = Inr (int n, s)"
  by (simp add: mailslot_write_def pushMessage_def)

text \<open>
  C7. A write to a full mailslot does not report the failure. After 256 one-byte
  writes to mailslot 0 of a fresh module the mailslot is full; \<open>pushMessage\<close> then
  rejects a further message with -1, but \<open>mailslot_write\<close> drops that result and
  returns \<open>len\<close> (here 1), as it does for an accepted message.
\<close>

theorem mailslot_write_full_returns_len:
  "run (replicate 256 (Write 0 0 ''x'' 1 0)) fresh_state = Inr (replicate 256 1, full_state) \<and>
   pushMessage ''x'' 1 0 full_state = Inr (- 1, full_state) \<and>
   mailslot_write 0 0 ''x'' 1 0 full_state = Inr (1, full_state)"
proof -
  have l: "0 < length (instances full_state)"
    "messages_count (instances full_state ! 0) = int MAILSLOT_STORAGE"
    by (simp_all add: full_state_def fresh_state_eq MAILSLOT_STORAGE_def)
  have "run (replicate 256 (Write 0 0 ''x'' 1 0)) (filled 0) = Inr (replicate 256 1, filled (0 + 256))"
    by (rule run_filled) simp
  then have "run (replicate 256 (Write 0 0 ''x'' 1 0)) fresh_state =
      Inr (replicate 256 1, full_state)"
    by (simp add: filled_0 filled_256)
  moreover from l have "pushMessage ''x'' 1 0 full_state = Inr (- 1, full_state)"
    by (simp add: pushMessage_def)
  moreover from mailslot_write_full [OF l, of "''x''" 1 0]
  have "mailslot_write 0 0 ''x'' 1 0 full_state = Inr (1, full_state)"
    by simp
  ultimately show ?thesis by blast
qed

subsection \<open>Writing more than a slot holds\<close>

text \<open>
  \<open>pushMessage\<close> never compares \<open>len\<close> with \<open>MESSAGE_SIZE\<close>: on a mailslot that is not
  full its \<open>memcpy\<close> writes all \<open>len\<close> bytes into the slot's buffer of
  \<open>MESSAGE_SIZE\<close> bytes.
\<close>

lemma pushMessage_oversized:
  assumes "wf s" "inst < INSTANCES" "messages_count (instances s ! inst) \<noteq> int MAILSLOT_STORAGE"
    "MESSAGE_SIZE < n" "n \<le> length buff"
  shows "pushMessage buff n inst s = Inl WriteOverrun"
proof -
  from assms(1,2) have il: "inst < length (instances s)"
    and wm: "wf_mailslot (instances s ! inst)"
    by (simp_all add: wf_nth)
  from wm assms(3) have c: "0 \<le> messages_count (instances s ! inst)"
    "messages_count (instances s ! inst) < int MAILSLOT_STORAGE"
    by (simp_all add: wf_mailslot_nth)
  then have k: "nat (messages_count (instances s ! inst)) < MAILSLOT_STORAGE" by simp
  with wm have "length (content (messages (instances s ! inst) !
      nat (messages_count (instances s ! inst)))) = MESSAGE_SIZE"
    "length (messages (instances s ! inst)) = MAILSLOT_STORAGE"
    by (simp_all add: wf_mailslot_nth)
  with il c k assms(3,4,5) show ?thesis
    by (simp add: pushMessage_def Let_def memcpy_def)
qed

text \<open>
  C8. A write of 257 bytes to an empty mailslot of a fresh module is neither rejected
  nor truncated: the copy runs past the end of the slot's 256-byte buffer, both in
  \<open>pushMessage\<close> and through \<open>mailslot_write\<close>.
\<close>

theorem pushMessage_oversized_overrun:
  "pushMessage (replicate 257 (CHR ''A'')) 257 0 fresh_state = Inl WriteOverrun \<and>
   mailslot_write 0 0 (replicate 257 (CHR ''A'')) 257 0 fresh_state = Inl WriteOverrun"
proof -
  have "pushMessage (replicate 257 (CHR ''A'')) 257 0 fresh_state = Inl WriteOverrun"
    by (rule pushMessage_oversized [OF wf_fresh_state])
      (simp_all add: INSTANCES_def MESSAGE_SIZE_def MAILSLOT_STORAGE_def fresh_state_eq)
  then show ?thesis
    by (simp add: mailslot_write_def fresh_state_eq)
qed

end
